theory Spec2Isabelle
  imports Main "HOL-Library.Multiset" "HOL-Library.Sublist" "HOL-Library.Word"
begin

section \<open>The polyfill dispatcher of src/msg-polyfill/index.ts\<close>

subsection \<open>Data model\<close>

text \<open>
  Protocol versions are JavaScript numbers used as whole version numbers; they are
  modelled as integers. On integers the comparator \<^verbatim>\<open>a.version - b.version\<close> is
  negative, zero or positive exactly as the mathematical difference is.

  The registry is imported from \<^verbatim>\<open>./registry\<close> and read through
  \<^verbatim>\<open>polyfillRegistry.entries()\<close>, which yields pairs of a version and a class in
  insertion order. It is a parameter of the model: an association list in iteration
  order. A class is modelled by its nullary constructor, so that
  \<^verbatim>\<open>new polyfillerCls()\<close> is \<open>polyfillerCls ()\<close>. The keys of a JavaScript
  \<^verbatim>\<open>Map\<close> are pairwise different, which is the predicate \<open>map_keys_unique\<close>.
\<close>

type_synonym 'p registry = "(int \<times> (unit \<Rightarrow> 'p)) list"

definition map_keys_unique :: "'p registry \<Rightarrow> bool" where
  "map_keys_unique reg = distinct (map fst reg)"

text \<open>The object literal \<^verbatim>\<open>{ version: pVersion, polyfiller: new polyfillerCls() }\<close>.\<close>

record 'p selected =
  version :: int
  polyfiller :: 'p

text \<open>
  \<^verbatim>\<open>Array.prototype.sort(comparefn)\<close>: a stable sort that places \<open>a\<close> before
  \<open>b\<close> when \<open>comparefn a b\<close> is not positive. It is written as an insertion sort
  that keeps the original order of elements the comparator does not separate.
\<close>

fun insert_by :: "('a \<Rightarrow> 'a \<Rightarrow> int) \<Rightarrow> 'a \<Rightarrow> 'a list \<Rightarrow> 'a list" where
  "insert_by comparefn x [] = [x]"
| "insert_by comparefn x (y # ys) =
     (if comparefn x y \<le> 0 then x # y # ys else y # insert_by comparefn x ys)"

definition array_sort :: "('a \<Rightarrow> 'a \<Rightarrow> int) \<Rightarrow> 'a list \<Rightarrow> 'a list" where
  "array_sort comparefn xs = foldr (insert_by comparefn) xs []"

subsection \<open>getPolyfillers\<close>

text \<open>
  The \<^verbatim>\<open>for\<close> loop of \<^verbatim>\<open>getPolyfillers\<close> over the entries of the registry:
  the accumulator is the array \<^verbatim>\<open>polyfillers\<close>, and \<^verbatim>\<open>push\<close> appends at its end.
\<close>

fun collect_polyfillers :: "int \<Rightarrow> 'p registry \<Rightarrow> 'p selected list \<Rightarrow> 'p selected list" where
  "collect_polyfillers ver [] polyfillers = polyfillers"
| "collect_polyfillers ver ((pVersion, polyfillerCls) # rest) polyfillers =
     collect_polyfillers ver rest
       (if ver \<le> pVersion
        then polyfillers @ [\<lparr>version = pVersion, polyfiller = polyfillerCls ()\<rparr>]
        else polyfillers)"

text \<open>The array \<^verbatim>\<open>polyfillers\<close> after \<^verbatim>\<open>polyfillers.sort((a, b) => a.version - b.version)\<close>.\<close>

definition sorted_polyfillers :: "'p registry \<Rightarrow> int \<Rightarrow> 'p selected list" where
  "sorted_polyfillers reg ver =
     array_sort (\<lambda>a b. version a - version b) (collect_polyfillers ver reg [])"

text \<open>The returned array \<^verbatim>\<open>polyfillers.map(p => p.polyfiller)\<close>.\<close>

definition getPolyfillers :: "'p registry \<Rightarrow> int \<Rightarrow> 'p list" where
  "getPolyfillers reg ver = map polyfiller (sorted_polyfillers reg ver)"

subsection \<open>The exported operations\<close>

text \<open>
  Modelled from the spec: the type \<^verbatim>\<open>BasePolyfiller\<close> is imported from
  \<^verbatim>\<open>./base-polyfiller\<close>, which is not among the sources. The spec gives its
  capability contract: a predicate telling whether the polyfiller handles a message
  identifier, and a transform operation on a buffer, which may fail with a
  Malformed-Payload error.
\<close>

datatype error = MalformedPayload

type_synonym buffer = "8 word list"


text \<open>
  The values an exported operation can hand back, and the settlement of the promise an
  \<^verbatim>\<open>async\<close> function returns.
\<close>

datatype js_value = Undefined | Buffer buffer

datatype 'a promise = Fulfilled 'a | Rejected error

text \<open>
  Both operations live in the module that holds the registry. They are written with the
  registry passed in and handed back, so that what a call does to it is part of the
  model. Their bodies are \<^verbatim>\<open>return undefined;\<close> and \<^verbatim>\<open>return;\<close>.
\<close>

definition polyfillGameMsg ::
  "int \<Rightarrow> string \<Rightarrow> buffer \<Rightarrow> 'p registry \<Rightarrow> js_value promise \<times> 'p registry" where
  "polyfillGameMsg ver msgTitle buf reg = (Fulfilled Undefined, reg)"

definition polyfillResponse ::
  "int \<Rightarrow> string \<Rightarrow> buffer \<Rightarrow> 'p registry \<Rightarrow> js_value promise \<times> 'p registry" where
  "polyfillResponse ver msgTitle buf reg = (Fulfilled Undefined, reg)"

subsection \<open>Auxiliary definitions for the statements\<close>

text \<open>The entry pushed for a registry pair, and the test of the loop.\<close>

definition pushed :: "int \<times> (unit \<Rightarrow> 'p) \<Rightarrow> 'p selected" where
  "pushed e = \<lparr>version = fst e, polyfiller = snd e ()\<rparr>"

definition applicable :: "int \<Rightarrow> int \<times> (unit \<Rightarrow> 'p) \<Rightarrow> bool" where
  "applicable ver e = (ver \<le> fst e)"


section \<open>Properties of the loop and of the sort\<close>

lemma collect_polyfillers_append:
  "collect_polyfillers ver reg acc = acc @ map pushed (filter (applicable ver) reg)"
proof (induction reg arbitrary: acc)
  case Nil
  show ?case by simp
next
  case (Cons e reg)
  obtain v c where e: "e = (v, c)" by (cases e)
  show ?case
    by (simp add: e Cons.IH pushed_def applicable_def)
qed

lemma insert_by_version:
  "insert_by (\<lambda>a b. version a - version b) x xs = insort_key version x xs"
  by (induction xs) simp_all

lemma array_sort_version:
  "array_sort (\<lambda>a b. version a - version b) xs = sort_key version xs"
  by (induction xs) (simp_all add: array_sort_def insert_by_version)

lemma sorted_polyfillers_eq:
  "sorted_polyfillers reg ver = sort_key version (map pushed (filter (applicable ver) reg))"
  by (simp add: sorted_polyfillers_def array_sort_version collect_polyfillers_append)

lemma version_pushed: "version (pushed e) = fst e"
  by (simp add: pushed_def)

lemma polyfiller_pushed: "polyfiller (pushed e) = snd e ()"
  by (simp add: pushed_def)

lemma set_sorted_polyfillers:
  "set (sorted_polyfillers reg ver) = pushed ` {e \<in> set reg. applicable ver e}"
  by (simp add: sorted_polyfillers_eq)

lemma pushed_pair: "pushed (v, c) = \<lparr>version = v, polyfiller = c ()\<rparr>"
  by (simp add: pushed_def)

lemma length_getPolyfillers:
  "length (getPolyfillers reg ver) = length (filter (applicable ver) reg)"
  by (simp add: getPolyfillers_def sorted_polyfillers_eq)

lemma set_getPolyfillers:
  "set (getPolyfillers reg ver) = (\<lambda>e. snd e ()) ` {e \<in> set reg. applicable ver e}"
  by (simp add: getPolyfillers_def set_sorted_polyfillers image_image polyfiller_pushed)

lemma sorted_versions:
  "sorted (map version (sorted_polyfillers reg ver))"
  by (simp add: sorted_polyfillers_eq)

lemma distinct_versions:
  assumes "map_keys_unique reg"
  shows "distinct (map version (sorted_polyfillers reg ver))"
proof -
  have "map version (map pushed (filter (applicable ver) reg)) = filter (\<lambda>v. ver \<le> v) (map fst reg)"
    by (induction reg) (simp_all add: version_pushed applicable_def)
  moreover have "distinct (filter (\<lambda>v. ver \<le> v) (map fst reg))"
    using assms by (simp add: map_keys_unique_def)
  ultimately have "distinct (map version (map pushed (filter (applicable ver) reg)))"
    by simp
  then have "distinct (map version (sort_key version (map pushed (filter (applicable ver) reg))))"
    by (metis distinct_map distinct_sort set_sort)
  then show ?thesis by (simp add: sorted_polyfillers_eq)
qed

section \<open>Selection\<close>

text \<open>
  C1. For every caller version and every registry, getPolyfillers includes exactly
  those registry entries whose registered version is greater than or equal to the
  caller version: every such entry appears in the result, no entry with a registered
  version strictly below the caller version appears, every selected entry comes from
  the registry, and the result has one element per matching entry.
\<close>

theorem getPolyfillers_selects_exactly:
  "(\<forall>(v, c) \<in> set reg. ver \<le> v \<longrightarrow>
       \<lparr>version = v, polyfiller = c ()\<rparr> \<in> set (sorted_polyfillers reg ver)
       \<and> c () \<in> set (getPolyfillers reg ver))
   \<and> (\<forall>e \<in> set (sorted_polyfillers reg ver).
         \<not> version e < ver \<and> (\<exists>c. (version e, c) \<in> set reg \<and> polyfiller e = c ()))
   \<and> length (getPolyfillers reg ver) = length (filter (\<lambda>(v, c). ver \<le> v) reg)"
proof (intro conjI)
  show "\<forall>(v, c) \<in> set reg. ver \<le> v \<longrightarrow>
       \<lparr>version = v, polyfiller = c ()\<rparr> \<in> set (sorted_polyfillers reg ver)
       \<and> c () \<in> set (getPolyfillers reg ver)"
  proof (clarify, intro conjI)
    fix v c assume m: "(v, c) \<in> set reg" and le: "ver \<le> v"
    then have "pushed (v, c) \<in> set (sorted_polyfillers reg ver)"
      by (simp add: set_sorted_polyfillers applicable_def)
    then show in_sorted: "\<lparr>version = v, polyfiller = c ()\<rparr> \<in> set (sorted_polyfillers reg ver)"
      by (simp add: pushed_pair)
    then have "polyfiller \<lparr>version = v, polyfiller = c ()\<rparr> \<in> polyfiller ` set (sorted_polyfillers reg ver)"
      by (rule imageI)
    then show "c () \<in> set (getPolyfillers reg ver)"
      by (simp add: getPolyfillers_def)
  qed
next
  show "\<forall>e \<in> set (sorted_polyfillers reg ver).
         \<not> version e < ver \<and> (\<exists>c. (version e, c) \<in> set reg \<and> polyfiller e = c ())"
  proof
    fix e assume "e \<in> set (sorted_polyfillers reg ver)"
    then obtain p where p: "p \<in> set reg" "applicable ver p" "e = pushed p"
      by (auto simp: set_sorted_polyfillers)
    obtain v c where vc: "p = (v, c)" by (cases p)
    from p vc show "\<not> version e < ver \<and> (\<exists>c. (version e, c) \<in> set reg \<and> polyfiller e = c ())"
      by (auto simp: applicable_def pushed_def)
  qed
next
  have "filter (\<lambda>(v, c). ver \<le> v) reg = filter (applicable ver) reg"
    by (rule filter_cong) (auto simp: applicable_def)
  then show "length (getPolyfillers reg ver) = length (filter (\<lambda>(v, c). ver \<le> v) reg)"
    by (simp add: length_getPolyfillers)
qed

theorem getPolyfillers_selects_exactly_witness:
  "\<lparr>version = 3, polyfiller = ''PolyfillerB''\<rparr>
      \<in> set (sorted_polyfillers [(1, \<lambda>_. ''PolyfillerA''), (3, \<lambda>_. ''PolyfillerB'')] 2)
   \<and> ''PolyfillerB'' \<in> set (getPolyfillers [(1, \<lambda>_. ''PolyfillerA''), (3, \<lambda>_. ''PolyfillerB'')] 2)
   \<and> \<lparr>version = 1, polyfiller = ''PolyfillerA''\<rparr>
      \<notin> set (sorted_polyfillers [(1, \<lambda>_. ''PolyfillerA''), (3, \<lambda>_. ''PolyfillerB'')] 2)
   \<and> length (getPolyfillers [(1, \<lambda>_. ''PolyfillerA''), (3, \<lambda>_. ''PolyfillerB'')] 2) = 1"
  using getPolyfillers_selects_exactly [of "[(1, \<lambda>_. ''PolyfillerA''), (3, \<lambda>_. ''PolyfillerB'')]" 2]
  by (simp add: getPolyfillers_def sorted_polyfillers_def array_sort_def)

text \<open>
  C2. For every caller version, the selected sequence is sorted strictly ascending by
  registered version (the keys of the registry being pairwise different, as those of a
  Map are); consequently, for registered versions V1 < V2 and a caller version at most
  V1, the polyfiller of V1 stands at a strictly smaller index than the polyfiller of V2.
\<close>

theorem getPolyfillers_strictly_ascending:
  assumes "map_keys_unique reg"
  shows "sorted_wrt (<) (map version (sorted_polyfillers reg ver))
    \<and> (\<forall>V1 V2 c1 c2. (V1, c1) \<in> set reg \<and> (V2, c2) \<in> set reg \<and> V1 < V2 \<and> ver \<le> V1 \<longrightarrow>
          (\<exists>i j. i < j \<and> j < length (getPolyfillers reg ver)
             \<and> sorted_polyfillers reg ver ! i = \<lparr>version = V1, polyfiller = c1 ()\<rparr>
             \<and> sorted_polyfillers reg ver ! j = \<lparr>version = V2, polyfiller = c2 ()\<rparr>
             \<and> getPolyfillers reg ver ! i = c1 ()
             \<and> getPolyfillers reg ver ! j = c2 ()))"
proof (intro conjI allI impI)
  show strict: "sorted_wrt (<) (map version (sorted_polyfillers reg ver))"
    using sorted_versions [of reg ver] distinct_versions [OF assms, of ver]
    by (simp add: strict_sorted_iff)
  fix V1 V2 c1 c2
  assume h: "(V1, c1) \<in> set reg \<and> (V2, c2) \<in> set reg \<and> V1 < V2 \<and> ver \<le> V1"
  let ?xs = "sorted_polyfillers reg ver"
  have len: "length (getPolyfillers reg ver) = length ?xs"
    by (simp add: getPolyfillers_def)
  from h have "pushed (V1, c1) \<in> set ?xs" "pushed (V2, c2) \<in> set ?xs"
    by (simp_all add: set_sorted_polyfillers applicable_def)
  then obtain i j where i: "i < length ?xs" "?xs ! i = \<lparr>version = V1, polyfiller = c1 ()\<rparr>"
    and j: "j < length ?xs" "?xs ! j = \<lparr>version = V2, polyfiller = c2 ()\<rparr>"
    by (auto simp: in_set_conv_nth pushed_pair)
  have "i < j"
  proof (rule ccontr)
    assume "\<not> i < j"
    then have "j \<le> i" by simp
    moreover have "sorted (map version ?xs)" by (rule sorted_versions)
    ultimately have "map version ?xs ! j \<le> map version ?xs ! i"
      using i(1) by (simp add: sorted_iff_nth_mono del: nth_map)
    then show False using i j h by simp
  qed
  moreover have "getPolyfillers reg ver ! i = c1 ()" "getPolyfillers reg ver ! j = c2 ()"
    using i j by (simp_all add: getPolyfillers_def)
  ultimately show "\<exists>i j. i < j \<and> j < length (getPolyfillers reg ver)
             \<and> sorted_polyfillers reg ver ! i = \<lparr>version = V1, polyfiller = c1 ()\<rparr>
             \<and> sorted_polyfillers reg ver ! j = \<lparr>version = V2, polyfiller = c2 ()\<rparr>
             \<and> getPolyfillers reg ver ! i = c1 ()
             \<and> getPolyfillers reg ver ! j = c2 ()"
    using i j len by auto
qed

theorem getPolyfillers_strictly_ascending_witness:
  "sorted_wrt (<) (map version (sorted_polyfillers [(3, \<lambda>_. ''PolyfillerB''), (1, \<lambda>_. ''PolyfillerA'')] 0))
   \<and> (\<exists>i j. i < j \<and> j < length (getPolyfillers [(3, \<lambda>_. ''PolyfillerB''), (1, \<lambda>_. ''PolyfillerA'')] 0)
        \<and> getPolyfillers [(3, \<lambda>_. ''PolyfillerB''), (1, \<lambda>_. ''PolyfillerA'')] 0 ! i = ''PolyfillerA''
        \<and> getPolyfillers [(3, \<lambda>_. ''PolyfillerB''), (1, \<lambda>_. ''PolyfillerA'')] 0 ! j = ''PolyfillerB'')"
proof -
  let ?reg = "[(3, \<lambda>_. ''PolyfillerB''), (1, \<lambda>_. ''PolyfillerA'')] :: string registry"
  have u: "map_keys_unique ?reg"
    by (simp add: map_keys_unique_def)
  have m: "(1, \<lambda>_. ''PolyfillerA'') \<in> set ?reg \<and> (3, \<lambda>_. ''PolyfillerB'') \<in> set ?reg
           \<and> (1::int) < 3 \<and> (0::int) \<le> 1"
    by simp
  from getPolyfillers_strictly_ascending [OF u, of 0] m show ?thesis
    by blast
qed

text \<open>
  C3. For every caller version strictly greater than every registered version,
  getPolyfillers returns the empty sequence; for every caller version less than or
  equal to every registered version, the length of the returned sequence is the size of
  the registry.
\<close>

theorem getPolyfillers_out_of_range:
  "((\<forall>(v, c) \<in> set reg. v < ver) \<longrightarrow> getPolyfillers reg ver = [])
   \<and> ((\<forall>(v, c) \<in> set reg. ver \<le> v) \<longrightarrow> length (getPolyfillers reg ver) = length reg)"
proof (intro conjI impI)
  assume "\<forall>(v, c) \<in> set reg. v < ver"
  then have "filter (applicable ver) reg = []"
    by (auto simp: filter_empty_conv applicable_def)
  then show "getPolyfillers reg ver = []"
    by (simp add: getPolyfillers_def sorted_polyfillers_eq)
next
  assume "\<forall>(v, c) \<in> set reg. ver \<le> v"
  then have "filter (applicable ver) reg = reg"
    by (auto simp: filter_id_conv applicable_def)
  then show "length (getPolyfillers reg ver) = length reg"
    by (simp add: length_getPolyfillers)
qed

theorem getPolyfillers_out_of_range_witness:
  "(1::int) < 4 \<and> (3::int) < 4
   \<and> getPolyfillers [(1, \<lambda>_. ''PolyfillerA''), (3, \<lambda>_. ''PolyfillerB'')] 4 = []
   \<and> (1::int) \<le> 1 \<and> (1::int) \<le> 3
   \<and> length (getPolyfillers [(1, \<lambda>_. ''PolyfillerA''), (3, \<lambda>_. ''PolyfillerB'')] 1) = 2"
proof -
  let ?reg = "[(1, \<lambda>_. ''PolyfillerA''), (3, \<lambda>_. ''PolyfillerB'')] :: string registry"
  have above: "\<forall>(v, c) \<in> set ?reg. v < 4"
    by simp
  have below: "\<forall>(v, c) \<in> set ?reg. 1 \<le> v"
    by simp
  from getPolyfillers_out_of_range [of ?reg 4] above
  have "getPolyfillers ?reg 4 = []"
    by blast
  moreover from getPolyfillers_out_of_range [of ?reg 1] below
  have "length (getPolyfillers ?reg 1) = length ?reg"
    by blast
  ultimately show ?thesis
    by simp
qed

text \<open>
  C4, as amended. For every caller version strictly above every registered version,
  getPolyfillers yields the empty set; for every caller version below all registered
  versions it yields the full set of registered polyfillers. A caller version equal to
  a registered version, the maximum included, still selects the entry of that version.
\<close>

theorem getPolyfillers_range_sets:
  "((\<forall>(v, c) \<in> set reg. v < ver) \<longrightarrow> set (getPolyfillers reg ver) = {})
   \<and> ((\<forall>(v, c) \<in> set reg. ver < v) \<longrightarrow>
        set (getPolyfillers reg ver) = (\<lambda>(v, c). c ()) ` set reg)
   \<and> (\<forall>(v, c) \<in> set reg. v = ver \<longrightarrow> c () \<in> set (getPolyfillers reg ver))"
proof (intro conjI impI)
  assume "\<forall>(v, c) \<in> set reg. v < ver"
  then have "{e \<in> set reg. applicable ver e} = {}"
    by (auto simp: applicable_def)
  then show "set (getPolyfillers reg ver) = {}"
    by (simp add: set_getPolyfillers)
next
  assume "\<forall>(v, c) \<in> set reg. ver < v"
  then have "{e \<in> set reg. applicable ver e} = set reg"
    by (auto simp: applicable_def)
  then have "set (getPolyfillers reg ver) = (\<lambda>e. snd e ()) ` set reg"
    by (simp add: set_getPolyfillers)
  also have "\<dots> = (\<lambda>(v, c). c ()) ` set reg"
    by (rule image_cong) auto
  finally show "set (getPolyfillers reg ver) = (\<lambda>(v, c). c ()) ` set reg" .
next
  show "\<forall>(v, c) \<in> set reg. v = ver \<longrightarrow> c () \<in> set (getPolyfillers reg ver)"
    by (force simp: set_getPolyfillers applicable_def)
qed

theorem getPolyfillers_range_sets_witness:
  "(1::int) < 4 \<and> (3::int) < 4
   \<and> set (getPolyfillers [(1, \<lambda>_. ''PolyfillerA''), (3, \<lambda>_. ''PolyfillerB'')] 4) = {}
   \<and> (0::int) < 1 \<and> (0::int) < 3
   \<and> set (getPolyfillers [(1, \<lambda>_. ''PolyfillerA''), (3, \<lambda>_. ''PolyfillerB'')] 0)
       = {''PolyfillerA'', ''PolyfillerB''}
   \<and> ''PolyfillerB'' \<in> set (getPolyfillers [(1, \<lambda>_. ''PolyfillerA''), (3, \<lambda>_. ''PolyfillerB'')] 3)"
proof -
  let ?reg = "[(1, \<lambda>_. ''PolyfillerA''), (3, \<lambda>_. ''PolyfillerB'')] :: string registry"
  have above: "\<forall>(v, c) \<in> set ?reg. v < 4"
    by simp
  have below: "\<forall>(v, c) \<in> set ?reg. 0 < v"
    by simp
  have at_max: "(3, \<lambda>_. ''PolyfillerB'') \<in> set ?reg"
    by simp
  from getPolyfillers_range_sets [of ?reg 4] above
  have "set (getPolyfillers ?reg 4) = {}"
    by blast
  moreover from getPolyfillers_range_sets [of ?reg 0] below
  have "set (getPolyfillers ?reg 0) = (\<lambda>(v, c). c ()) ` set ?reg"
    by blast
  moreover from getPolyfillers_range_sets [of ?reg 3] at_max
  have "''PolyfillerB'' \<in> set (getPolyfillers ?reg 3)"
    by simp
  ultimately show ?thesis
    by simp
qed

text \<open>
  The statement with "at or above the maximum" fails at the maximum itself: with
  versions 1 and 3 registered, a caller version of 3 selects PolyfillerB.
\<close>

theorem getPolyfillers_at_maximum_counterexample:
  "Max (fst ` set [(1::int, \<lambda>_::unit. ''PolyfillerA''), (3, \<lambda>_. ''PolyfillerB'')]) \<le> 3
   \<and> getPolyfillers [(1, \<lambda>_. ''PolyfillerA''), (3, \<lambda>_. ''PolyfillerB'')] 3 = [''PolyfillerB'']
   \<and> set (getPolyfillers [(1, \<lambda>_. ''PolyfillerA''), (3, \<lambda>_. ''PolyfillerB'')] 3) \<noteq> {}"
  by (simp add: getPolyfillers_def sorted_polyfillers_def array_sort_def)

text \<open>
  C10. Selection is antitone in the caller version: for caller versions
  \<open>ver1 \<le> ver2\<close> the sequence selected for \<open>ver2\<close> is a subsequence of the
  sequence selected for \<open>ver1\<close>.
\<close>

theorem getPolyfillers_antitone:
  assumes "ver1 \<le> ver2"
  shows "subseq (getPolyfillers reg ver2) (getPolyfillers reg ver1)
         \<and> subseq (sorted_polyfillers reg ver2) (sorted_polyfillers reg ver1)"
proof -
  let ?P = "\<lambda>e. ver2 \<le> version e"
  have "filter ?P (map pushed (filter (applicable ver1) reg)) = map pushed (filter (applicable ver2) reg)"
    using assms by (induction reg) (auto simp: applicable_def version_pushed)
  then have "sorted_polyfillers reg ver2 = filter ?P (sorted_polyfillers reg ver1)"
    by (simp add: sorted_polyfillers_eq filter_sort)
  then have s: "subseq (sorted_polyfillers reg ver2) (sorted_polyfillers reg ver1)"
    by simp
  then have "subseq (getPolyfillers reg ver2) (getPolyfillers reg ver1)"
    unfolding getPolyfillers_def by (rule subseq_map)
  with s show ?thesis by simp
qed

theorem getPolyfillers_antitone_witness:
  "(0::int) \<le> 2
   \<and> getPolyfillers [(1, \<lambda>_. ''PolyfillerA''), (3, \<lambda>_. ''PolyfillerB'')] 2 = [''PolyfillerB'']
   \<and> getPolyfillers [(1, \<lambda>_. ''PolyfillerA''), (3, \<lambda>_. ''PolyfillerB'')] 0 = [''PolyfillerA'', ''PolyfillerB'']
   \<and> subseq (getPolyfillers [(1, \<lambda>_. ''PolyfillerA''), (3, \<lambda>_. ''PolyfillerB'')] 2)
         (getPolyfillers [(1, \<lambda>_. ''PolyfillerA''), (3, \<lambda>_. ''PolyfillerB'')] 0)"
proof -
  have h: "(0::int) \<le> 2" by simp
  have e: "getPolyfillers [(1, \<lambda>_. ''PolyfillerA''), (3, \<lambda>_. ''PolyfillerB'')] 2 = [''PolyfillerB'']"
    "getPolyfillers [(1, \<lambda>_. ''PolyfillerA''), (3, \<lambda>_. ''PolyfillerB'')] 0 = [''PolyfillerA'', ''PolyfillerB'']"
    by (simp_all add: getPolyfillers_def sorted_polyfillers_def array_sort_def)
  from getPolyfillers_antitone [OF h, of "[(1, \<lambda>_. ''PolyfillerA''), (3, \<lambda>_. ''PolyfillerB'')]"]
  have "subseq (getPolyfillers [(1, \<lambda>_. ''PolyfillerA''), (3, \<lambda>_. ''PolyfillerB'')] 2)
         (getPolyfillers [(1, \<lambda>_. ''PolyfillerA''), (3, \<lambda>_. ''PolyfillerB'')] 0)"
    by (rule conjunct1)
  with h e show ?thesis by simp
qed

section \<open>The scenarios of the specification\<close>

text \<open>
  C5. With the registry that maps version 1 to PolyfillerA and version 3 to
  PolyfillerB, a caller version of 2 selects exactly the sequence [PolyfillerB], and a
  caller version of 0 selects exactly [PolyfillerA, PolyfillerB], in that order. The
  order in which the two entries were put into the registry makes no difference.
\<close>

theorem getPolyfillers_scenarios:
  "getPolyfillers [(1, \<lambda>_. A), (3, \<lambda>_. B)] 2 = [B]
   \<and> getPolyfillers [(1, \<lambda>_. A), (3, \<lambda>_. B)] 0 = [A, B]
   \<and> getPolyfillers [(3, \<lambda>_. B), (1, \<lambda>_. A)] 2 = [B]
   \<and> getPolyfillers [(3, \<lambda>_. B), (1, \<lambda>_. A)] 0 = [A, B]"
  by (simp add: getPolyfillers_def sorted_polyfillers_def array_sort_def)

section \<open>The exported operations\<close>




text \<open>
  C9. For every version, message identifier, buffer and registry, polyfillGameMsg and
  polyfillResponse complete with no data (undefined) and leave the registry as it is;
  the result is the same for any other arguments and any other registry.
\<close>

theorem dispatch_returns_no_data:
  "polyfillGameMsg ver msgTitle buf reg = (Fulfilled Undefined, reg)
   \<and> polyfillResponse ver msgTitle buf reg = (Fulfilled Undefined, reg)
   \<and> fst (polyfillGameMsg ver msgTitle buf reg) = fst (polyfillGameMsg ver' msgTitle' buf' reg')
   \<and> fst (polyfillResponse ver msgTitle buf reg) = fst (polyfillResponse ver' msgTitle' buf' reg')"
  by (simp add: polyfillGameMsg_def polyfillResponse_def)

end
